theory Spec2Isabelle
  imports Complex_Main "HOL-Library.Word"
begin

section \<open>Audio utilities of the voice-call component\<close>

text \<open>
  The component \<open>Community\<close> streams microphone audio to a remote session and plays the
  audio it receives. Bytes are \<open>8 word\<close>, the elements of an \<open>Int16Array\<close> are
  \<open>16 word\<close>. A JavaScript "binary string" is the list of its code units (natural
  numbers); base64 text only ever holds ASCII and is a \<open>string\<close>.
\<close>

type_synonym byte = "8 word"
type_synonym int16 = "16 word"

datatype error = InvalidCharacterError | NotSupportedError | RangeError

definition INPUT_SAMPLE_RATE :: nat where
  "INPUT_SAMPLE_RATE = 16000"

definition OUTPUT_SAMPLE_RATE :: nat where
  "OUTPUT_SAMPLE_RATE = 24000"

subsection \<open>The platform's \<open>btoa\<close> and \<open>atob\<close>\<close>

text \<open>
  \<open>btoa\<close> and \<open>atob\<close> are browser functions. \<open>btoa\<close> is base64 of RFC 4648 over a
  string whose code units are all below 256 and raises \<open>InvalidCharacterError\<close> otherwise.
  \<open>atob\<close> is the forgiving base64 decoder: it drops ASCII whitespace, drops one or two
  trailing \<open>=\<close> when the length is a multiple of four, fails when the remaining length is
  1 modulo 4 or a character is outside the alphabet, and decodes six bits per character,
  discarding the trailing 2 or 4 bits of an incomplete group.
\<close>

definition b64_alphabet :: string where
  "b64_alphabet = ''ABCDEFGHIJKLMNOPQRSTUVWXYZabcdefghijklmnopqrstuvwxyz0123456789+/''"

definition b64_char :: "nat \<Rightarrow> char" where
  "b64_char n = b64_alphabet ! n"

fun index_of :: "'a list \<Rightarrow> 'a \<Rightarrow> nat option" where
  "index_of [] c = None"
| "index_of (x # xs) c = (if x = c then Some 0 else map_option Suc (index_of xs c))"

definition b64_index :: "char \<Rightarrow> nat option" where
  "b64_index c = index_of b64_alphabet c"

fun b64_digits :: "nat list \<Rightarrow> nat list" where
  "b64_digits (a # b # c # rest) =
     [a div 4, (a mod 4) * 16 + b div 16, (b mod 16) * 4 + c div 64, c mod 64] @ b64_digits rest"
| "b64_digits [a, b] = [a div 4, (a mod 4) * 16 + b div 16, (b mod 16) * 4]"
| "b64_digits [a] = [a div 4, (a mod 4) * 16]"
| "b64_digits [] = []"

definition b64_padding :: "nat \<Rightarrow> nat" where
  "b64_padding n = (3 - n mod 3) mod 3"

definition btoa :: "nat list \<Rightarrow> error + string" where
  "btoa s =
     (if list_all (\<lambda>u. u < 256) s
      then Inr (map b64_char (b64_digits s) @ replicate (b64_padding (length s)) (CHR ''=''))
      else Inl InvalidCharacterError)"

definition is_ascii_whitespace :: "char \<Rightarrow> bool" where
  "is_ascii_whitespace c = (c \<in> set [CHR 0x09, CHR 0x0A, CHR 0x0C, CHR 0x0D, CHR 0x20])"

definition strip_padding :: "string \<Rightarrow> string" where
  "strip_padding s =
     (if length s mod 4 = 0 \<and> s \<noteq> [] \<and> last s = CHR ''=''
      then (let s1 = butlast s in if s1 \<noteq> [] \<and> last s1 = CHR ''='' then butlast s1 else s1)
      else s)"

fun sextets :: "string \<Rightarrow> nat list option" where
  "sextets [] = Some []"
| "sextets (c # cs) =
     (case b64_index c of
        None \<Rightarrow> None
      | Some i \<Rightarrow> map_option ((#) i) (sextets cs))"

fun atob_groups :: "nat list \<Rightarrow> nat list" where
  "atob_groups (p # q # r # s # rest) =
     [p * 4 + q div 16, (q mod 16) * 16 + r div 4, (r mod 4) * 64 + s] @ atob_groups rest"
| "atob_groups [p, q, r] = [p * 4 + q div 16, (q mod 16) * 16 + r div 4]"
| "atob_groups [p, q] = [p * 4 + q div 16]"
| "atob_groups [p] = []"
| "atob_groups [] = []"

definition atob :: "string \<Rightarrow> error + nat list" where
  "atob t =
     (let s = strip_padding (filter (\<lambda>c. \<not> is_ascii_whitespace c) t)
      in if length s mod 4 = 1 then Inl InvalidCharacterError
         else (case sextets s of
                 None \<Rightarrow> Inl InvalidCharacterError
               | Some ds \<Rightarrow> Inr (atob_groups ds)))"

subsection \<open>\<open>base64ToUint8Array\<close> and \<open>arrayBufferToBase64\<close>\<close>

text \<open>
  \<open>base64ToUint8Array\<close> stores \<open>binaryString.charCodeAt(i)\<close> into a \<open>Uint8Array\<close>, which
  keeps the value modulo 256. \<open>arrayBufferToBase64\<close> appends \<open>String.fromCharCode(bytes[i])\<close>
  for each byte and hands the string to \<open>btoa\<close>.
\<close>

definition base64ToUint8Array :: "string \<Rightarrow> error + byte list" where
  "base64ToUint8Array base64 =
     (case atob base64 of
        Inl e \<Rightarrow> Inl e
      | Inr binaryString \<Rightarrow> Inr (map of_nat binaryString))"

definition arrayBufferToBase64 :: "byte list \<Rightarrow> error + string" where
  "arrayBufferToBase64 buffer = btoa (map unat buffer)"

subsection \<open>\<open>floatTo16BitPCM\<close>\<close>

text \<open>
  Samples are modelled as real numbers. The input is a \<open>Float32Array\<close>: every element has
  a 24-bit significand, so its products with \<open>0x8000\<close> and \<open>0x7FFF\<close> are exact in double
  precision and the real-number model computes what the code computes. \<open>NaN\<close> and the
  infinities are outside the model. Storing a number into an \<open>Int16Array\<close> truncates it
  towards zero and keeps the low 16 bits (\<open>ToInt16\<close>).
\<close>

definition trunc :: "real \<Rightarrow> int" where
  "trunc x = (if x < 0 then - \<lfloor>- x\<rfloor> else \<lfloor>x\<rfloor>)"

definition ToInt16 :: "real \<Rightarrow> int16" where
  "ToInt16 x = word_of_int (trunc x)"

definition scaled_sample :: "real \<Rightarrow> real" where
  "scaled_sample x = (let s = max (- 1) (min 1 x) in if s < 0 then s * 0x8000 else s * 0x7FFF)"

definition floatTo16BitPCM_output :: "real list \<Rightarrow> int16 list" where
  "floatTo16BitPCM_output input = map (\<lambda>x. ToInt16 (scaled_sample x)) input"

text \<open>
  \<open>output.buffer\<close> exposes the array's bytes in the platform's byte order, little-endian
  on the platforms browsers run on: low byte first.
\<close>

definition int16_bytes :: "int16 \<Rightarrow> byte list" where
  "int16_bytes w = [ucast w, ucast (drop_bit 8 w)]"

definition floatTo16BitPCM :: "real list \<Rightarrow> byte list" where
  "floatTo16BitPCM input = concat (map int16_bytes (floatTo16BitPCM_output input))"

subsection \<open>Double-precision arithmetic\<close>

text \<open>
  The clock readings of the audio context, the playback cursor and the duration of an
  audio buffer are JavaScript numbers. \<open>fl\<close> rounds a real number to the nearest double,
  ties to the even significand: \<open>binade\<close> is the exponent of the number, the significand
  has 53 bits. Exponent overflow and subnormal numbers are outside the model; times in
  seconds are far from both. The sum of the doubles \<open>a\<close> and \<open>b\<close> as the code computes it
  is \<open>fl (a + b)\<close>, their quotient \<open>fl (a / b)\<close>.
\<close>

definition binade :: "real \<Rightarrow> int" where
  "binade x = \<lfloor>log 2 x\<rfloor>"

definition rne :: "real \<Rightarrow> int" where
  "rne y =
     (let f = \<lfloor>y\<rfloor>
      in if y - of_int f < 1 / 2 then f
         else if 1 / 2 < y - of_int f then f + 1
         else if even f then f else f + 1)"

definition fl :: "real \<Rightarrow> real" where
  "fl x =
     (if x = 0 then 0
      else let u = 2 powi (binade \<bar>x\<bar> - 52)
           in sgn x * (of_int (rne (\<bar>x\<bar> / u)) * u))"

definition is_double :: "real \<Rightarrow> bool" where
  "is_double x = (fl x = x)"

subsection \<open>Component state\<close>

type_synonym handle = nat

record FriendProfile =
  id_p :: string
  name_p :: string
  avatar :: string
  learning :: "string list"
  personaInstruction :: string
  voiceName :: string

datatype status = Idle | Connecting | Connected | Error

text \<open>
  The \<open>useState\<close> values and the \<open>useRef\<close> cells of \<open>Community\<close>. A ref holding
  \<open>null\<close> is \<open>None\<close>; a platform object is a handle. \<open>volumeLevel\<close> is \<open>None\<close> when
  the number is \<open>NaN\<close>.

  The last two fields hold what the closures of the component have captured. \<open>isMicOn\<close>
  is a \<open>const\<close> of one render: \<open>startCall\<close>, the session callbacks it creates and the
  \<open>startAudioPipeline\<close> they call all see the value of the render in which \<open>startCall\<close>
  was invoked (\<open>scope_isMicOn\<close>), and the \<open>onaudioprocess\<close> handler that
  \<open>startAudioPipeline\<close> installs keeps that value for as long as it exists
  (\<open>handler_isMicOn\<close>, \<open>None\<close> while no handler has been installed). A later
  \<open>setIsMicOn\<close> changes \<open>isMicOn\<close> for later renders only. Callbacks of an earlier call
  that fire after a later \<open>startCall\<close> are outside the model.
\<close>

record component =
  activeCall :: "FriendProfile option"
  isMicOn :: bool
  connectionStatus :: status
  volumeLevel :: "real option"
  audioContextRef :: "handle option"
  inputSourceRef :: "handle option"
  processorRef :: "handle option"
  streamRef :: "handle option"
  nextStartTimeRef :: real
  sessionPromiseRef :: "handle option"
  scope_isMicOn :: bool
  handler_isMicOn :: "bool option"

record message =
  mimeType :: string
  data :: string

text \<open>
  What a handler does to the platform, in the order it does it. \<open>ThenClose p\<close> and
  \<open>ThenSendRealtimeInput p m\<close> are the reactions \<open>s => s.close()\<close> and
  \<open>session => session.sendRealtimeInput({ media: m })\<close> registered with \<open>then\<close> on the session
  promise \<open>p\<close>; \<open>StartSource ctx t buf\<close> is \<open>source.start(t)\<close> for a source whose buffer
  holds the samples \<open>buf\<close>.
\<close>

datatype action =
    ThenClose handle
  | StopTracks handle
  | DisconnectProcessor handle
  | DisconnectSource handle
  | CloseContext handle
  | CreateMediaStreamSource handle handle handle
  | CreateScriptProcessor handle nat handle
  | ConnectNodes handle handle
  | ConnectDestination handle handle
  | ThenSendRealtimeInput handle message
  | StartSource handle real "real list"

definition initial :: component where
  "initial = \<lparr> activeCall = None, isMicOn = True, connectionStatus = Idle,
     volumeLevel = Some 0, audioContextRef = None, inputSourceRef = None,
     processorRef = None, streamRef = None, nextStartTimeRef = 0,
     sessionPromiseRef = None, scope_isMicOn = True, handler_isMicOn = None \<rparr>"

subsection \<open>\<open>startCall\<close>\<close>

text \<open>
  \<open>startCall\<close> suspends at \<open>await getUserMedia\<close>. \<open>startCall_begin\<close> is the part before
  the suspension, with the new audio context \<open>ctx\<close> and its clock reading \<open>now\<close>; it runs
  in the scope of the current render, whose \<open>isMicOn\<close> the closures keep;
  \<open>startCall_granted\<close> resumes with the microphone stream and the promise returned by
  \<open>ai.live.connect\<close>; \<open>startCall_failed\<close> is the \<open>catch\<close> branch.
\<close>

definition startCall_begin :: "handle \<Rightarrow> real \<Rightarrow> FriendProfile \<Rightarrow> component \<Rightarrow> component" where
  "startCall_begin ctx now profile st =
     st\<lparr> activeCall := Some profile, connectionStatus := Connecting,
         audioContextRef := Some ctx, nextStartTimeRef := now,
         scope_isMicOn := isMicOn st \<rparr>"

definition startCall_granted :: "handle \<Rightarrow> handle \<Rightarrow> component \<Rightarrow> component" where
  "startCall_granted stream promise st =
     st\<lparr> streamRef := Some stream, sessionPromiseRef := Some promise \<rparr>"

definition startCall_failed :: "component \<Rightarrow> component" where
  "startCall_failed st = st\<lparr> connectionStatus := Error \<rparr>"

subsection \<open>\<open>startAudioPipeline\<close> and the \<open>onaudioprocess\<close> handler\<close>

text \<open>
  \<open>src\<close> and \<open>proc\<close> are the nodes the audio context creates. The handler assigned to
  \<open>proc.onaudioprocess\<close> is created here, in the scope of \<open>startCall\<close>.
\<close>

definition startAudioPipeline :: "handle \<Rightarrow> handle \<Rightarrow> component \<Rightarrow> component \<times> action list" where
  "startAudioPipeline src proc st =
     (case (audioContextRef st, streamRef st, sessionPromiseRef st) of
        (Some ctx, Some stream, Some p) \<Rightarrow>
          (st\<lparr> inputSourceRef := Some src, processorRef := Some proc,
               handler_isMicOn := Some (scope_isMicOn st) \<rparr>,
           [CreateMediaStreamSource ctx stream src, CreateScriptProcessor ctx 4096 proc,
            ConnectNodes src proc, ConnectDestination proc ctx])
      | _ \<Rightarrow> (st, []))"

fun digits10 :: "nat \<Rightarrow> string" where
  "digits10 n =
     (if n < 10 then [''0123456789'' ! n]
      else digits10 (n div 10) @ [''0123456789'' ! (n mod 10)])"

definition pcm_mimeType :: string where
  "pcm_mimeType = ''audio/pcm;rate='' @ digits10 INPUT_SAMPLE_RATE"

definition rms :: "real list \<Rightarrow> real option" where
  "rms inputData =
     (if inputData = [] then None
      else Some (sqrt ((\<Sum>x\<leftarrow>inputData. x * x) / real (length inputData))))"

text \<open>
  The handler of the script processor, run by the platform once per captured frame. The
  \<open>isMicOn\<close> it tests is the captured one; the session ref is read when the frame
  arrives. Without an installed handler a frame does nothing.
\<close>

definition onaudioprocess :: "real list \<Rightarrow> component \<Rightarrow> component \<times> action list" where
  "onaudioprocess inputData st =
     (case handler_isMicOn st of
        None \<Rightarrow> (st, [])
      | Some micOn \<Rightarrow>
          if \<not> micOn then (st, [])
          else
            let st1 = st\<lparr> volumeLevel := rms inputData \<rparr>;
                pcm16 = floatTo16BitPCM inputData
            in case arrayBufferToBase64 pcm16 of
                 Inl e \<Rightarrow> (st1, [])
               | Inr base64Data \<Rightarrow>
                   (case sessionPromiseRef st1 of
                      None \<Rightarrow> (st1, [])
                    | Some p \<Rightarrow>
                        (st1, [ThenSendRealtimeInput p
                                 \<lparr> mimeType = pcm_mimeType, data = base64Data \<rparr>])))"

subsection \<open>\<open>playAudioChunk\<close>\<close>

text \<open>
  \<open>createBuffer\<close> raises \<open>NotSupportedError\<close> for a length of zero frames (a fractional
  length is truncated first), and \<open>getInt16\<close> raises \<open>RangeError\<close> when the two bytes are
  not both inside the view, which happens at the last index for an odd number of bytes.
  The function is \<open>async\<close>: a raise rejects its promise and nothing is assigned.
  A 16-bit integer divided by 32768 is exact in single precision, so the samples written
  to the channel are the quotients themselves. \<open>audioBuffer.duration\<close> is the frame
  count divided by the sample rate, and the new cursor is the sum of the start time and
  the duration, both in double precision.
\<close>

definition getInt16 :: "byte \<Rightarrow> byte \<Rightarrow> int16" where
  "getInt16 lo hi = word_cat hi lo"

fun pcm_to_float :: "byte list \<Rightarrow> error + real list" where
  "pcm_to_float (lo # hi # rest) =
     (case pcm_to_float rest of
        Inl e \<Rightarrow> Inl e
      | Inr xs \<Rightarrow> Inr (real_of_int (sint (getInt16 lo hi)) / 32768 # xs))"
| "pcm_to_float [b] = Inl RangeError"
| "pcm_to_float [] = Inr []"

definition duration :: "real list \<Rightarrow> real" where
  "duration buf = fl (real (length buf) / real OUTPUT_SAMPLE_RATE)"

definition playAudioChunk :: "real \<Rightarrow> string \<Rightarrow> component \<Rightarrow> error + component \<times> action list" where
  "playAudioChunk now base64Audio st =
     (case audioContextRef st of
        None \<Rightarrow> Inr (st, [])
      | Some ctx \<Rightarrow>
          (case base64ToUint8Array base64Audio of
             Inl e \<Rightarrow> Inl e
           | Inr audioBytes \<Rightarrow>
               if length audioBytes div 2 = 0 then Inl NotSupportedError
               else (case pcm_to_float audioBytes of
                       Inl e \<Rightarrow> Inl e
                     | Inr channelData \<Rightarrow>
                         let startTime = max now (nextStartTimeRef st)
                         in Inr (st\<lparr> nextStartTimeRef := fl (startTime + duration channelData) \<rparr>,
                                 [StartSource ctx startTime channelData]))))"

subsection \<open>\<open>endCall\<close>, \<open>toggleMic\<close> and the session callbacks\<close>

definition endCall :: "component \<Rightarrow> component \<times> action list" where
  "endCall st =
     (let (st1, a1) = (case sessionPromiseRef st of
                         Some p \<Rightarrow> (st\<lparr> sessionPromiseRef := None \<rparr>, [ThenClose p])
                       | None \<Rightarrow> (st, []));
          (st2, a2) = (case streamRef st1 of
                         Some s \<Rightarrow> (st1\<lparr> streamRef := None \<rparr>, [StopTracks s])
                       | None \<Rightarrow> (st1, []));
          (st3, a3) = (case processorRef st2 of
                         Some n \<Rightarrow> (st2\<lparr> processorRef := None \<rparr>, [DisconnectProcessor n])
                       | None \<Rightarrow> (st2, []));
          (st4, a4) = (case inputSourceRef st3 of
                         Some n \<Rightarrow> (st3\<lparr> inputSourceRef := None \<rparr>, [DisconnectSource n])
                       | None \<Rightarrow> (st3, []));
          (st5, a5) = (case audioContextRef st4 of
                         Some c \<Rightarrow> (st4\<lparr> audioContextRef := None \<rparr>, [CloseContext c])
                       | None \<Rightarrow> (st4, []))
      in (st5\<lparr> activeCall := None, connectionStatus := Idle \<rparr>, a1 @ a2 @ a3 @ a4 @ a5))"

definition toggleMic :: "component \<Rightarrow> component" where
  "toggleMic st = st\<lparr> isMicOn := \<not> isMicOn st \<rparr>"

definition onopen :: "handle \<Rightarrow> handle \<Rightarrow> component \<Rightarrow> component \<times> action list" where
  "onopen src proc st = startAudioPipeline src proc (st\<lparr> connectionStatus := Connected \<rparr>)"

text \<open>
  \<open>audioData\<close> is \<open>None\<close> when the optional chain yields \<open>undefined\<close>; the empty string is
  falsy. The promise of \<open>playAudioChunk\<close> is not awaited, so a rejection changes nothing.
\<close>

definition onmessage :: "real \<Rightarrow> string option \<Rightarrow> component \<Rightarrow> component \<times> action list" where
  "onmessage now audioData st =
     (case audioData of
        None \<Rightarrow> (st, [])
      | Some d \<Rightarrow>
          if d \<noteq> [] \<and> audioContextRef st \<noteq> None
          then (case playAudioChunk now d st of Inl e \<Rightarrow> (st, []) | Inr r \<Rightarrow> r)
          else (st, []))"

definition onclose :: "component \<Rightarrow> component \<times> action list" where
  "onclose st = endCall st"

definition onerror :: "component \<Rightarrow> component \<times> action list" where
  "onerror st = (st\<lparr> connectionStatus := Error \<rparr>, [])"


subsection \<open>Runs of the handlers\<close>

text \<open>
  \<open>play_chunks\<close> calls \<open>playAudioChunk\<close> once per received chunk, each with the clock
  reading at its arrival; a call that raises leaves the state as it was. \<open>scheduled\<close>
  lists the start time and the duration of every source started, in order.
  \<open>back_to_back\<close> holds of such a list when every start time is at least the one before
  and at least the cursor the chunk before left, which is the sum of its start time and
  its duration as the code computes it.
\<close>

fun play_chunks :: "(real \<times> string) list \<Rightarrow> component \<Rightarrow> component \<times> action list" where
  "play_chunks [] st = (st, [])"
| "play_chunks ((now, base64Audio) # rest) st =
     (case playAudioChunk now base64Audio st of
        Inl e \<Rightarrow> play_chunks rest st
      | Inr (st1, a1) \<Rightarrow> (let (st2, a2) = play_chunks rest st1 in (st2, a1 @ a2)))"

fun scheduled :: "action list \<Rightarrow> (real \<times> real) list" where
  "scheduled [] = []"
| "scheduled (StartSource ctx t buf # acts) = (t, duration buf) # scheduled acts"
| "scheduled (a # acts) = scheduled acts"

fun back_to_back :: "(real \<times> real) list \<Rightarrow> bool" where
  "back_to_back ((s1, d1) # (s2, d2) # rest) =
     (s1 \<le> s2 \<and> fl (s1 + d1) \<le> s2 \<and> back_to_back ((s2, d2) # rest))"
| "back_to_back [x] = True"
| "back_to_back [] = True"

text \<open>
  \<open>capture_frames\<close> runs the \<open>onaudioprocess\<close> handler on each captured frame in order;
  \<open>sends\<close> lists the messages handed to \<open>sendRealtimeInput\<close> by the reactions registered
  on the session promise, which run in registration order once the promise is fulfilled.
\<close>

fun capture_frames :: "real list list \<Rightarrow> component \<Rightarrow> component \<times> action list" where
  "capture_frames [] st = (st, [])"
| "capture_frames (frame # rest) st =
     (let (st1, a1) = onaudioprocess frame st;
          (st2, a2) = capture_frames rest st1
      in (st2, a1 @ a2))"

fun sends :: "action list \<Rightarrow> message list" where
  "sends [] = []"
| "sends (ThenSendRealtimeInput p m # acts) = m # sends acts"
| "sends (a # acts) = sends acts"

text \<open>
  What can still happen to the component after \<open>endCall\<close> when no new call is started:
  the suspended \<open>startCall\<close> resumes with the microphone stream and the session promise
  or in its \<open>catch\<close> branch, and the session delivers its events. \<open>deliver_all\<close> runs such
  events in order. \<open>starts_media\<close> marks the actions that build the capture pipeline, send
  audio or start playback.
\<close>

datatype event =
    Granted handle handle
  | Failed
  | Open handle handle
  | Message real "string option"
  | SessionError
  | Close

fun deliver :: "event \<Rightarrow> component \<Rightarrow> component \<times> action list" where
  "deliver (Granted stream promise) st = (startCall_granted stream promise st, [])"
| "deliver Failed st = (startCall_failed st, [])"
| "deliver (Open src proc) st = onopen src proc st"
| "deliver (Message now audioData) st = onmessage now audioData st"
| "deliver SessionError st = onerror st"
| "deliver Close st = onclose st"

fun deliver_all :: "event list \<Rightarrow> component \<Rightarrow> component \<times> action list" where
  "deliver_all [] st = (st, [])"
| "deliver_all (ev # rest) st =
     (let (st1, a1) = deliver ev st;
          (st2, a2) = deliver_all rest st1
      in (st2, a1 @ a2))"

fun starts_media :: "action \<Rightarrow> bool" where
  "starts_media (CreateMediaStreamSource ctx stream src) = True"
| "starts_media (CreateScriptProcessor ctx n proc) = True"
| "starts_media (ConnectNodes src proc) = True"
| "starts_media (ConnectDestination proc ctx) = True"
| "starts_media (ThenSendRealtimeInput p m) = True"
| "starts_media (StartSource ctx t buf) = True"
| "starts_media a = False"

subsection \<open>Example states\<close>

text \<open>
  The first entry of \<open>FRIENDS\<close>; a call to her whose \<open>getUserMedia\<close> is pending (audio
  context 1); the call once it is connecting (microphone stream 2, session promise 3);
  the call after the session opened (source node 4, script processor 5).
  \<open>late_open\<close> is the component after that call was ended while connecting and its open
  event arrived afterwards. \<open>muted_idle\<close> is the component after the live call was muted
  and ended, \<open>muted_call\<close> a second call started from there and opened, and
  \<open>unmuted_call\<close> that call after the microphone button was pressed again.
\<close>

definition priya :: FriendProfile where
  "priya = \<lparr> id_p = ''priya'', name_p = ''Priya Sharma'',
     avatar = ''bg-pink-100 text-pink-600'',
     learning = [''Petrichor'', ''Serendipity''],
     personaInstruction = ''You are Priya Sharma, a friendly Indian student learning English. You speak with a gentle Indian English accent. You are excited to talk about the words 'Petrichor' and 'Serendipity'. You are helpful and encouraging.'',
     voiceName = ''Kore'' \<rparr>"

definition pending_call :: component where
  "pending_call = startCall_begin 1 0 priya initial"

definition connecting_call :: component where
  "connecting_call = startCall_granted 2 3 (startCall_begin 1 0 priya initial)"

definition live_call :: component where
  "live_call = fst (onopen 4 5 connecting_call)"

definition late_open :: component where
  "late_open = fst (onopen 4 5 (fst (endCall connecting_call)))"

definition muted_idle :: component where
  "muted_idle = fst (endCall (toggleMic live_call))"

definition muted_call :: component where
  "muted_call = fst (onopen 9 10 (startCall_granted 7 8 (startCall_begin 6 0 priya muted_idle)))"

definition unmuted_call :: component where
  "unmuted_call = toggleMic muted_call"

section \<open>StorageService\<close>

datatype difficulty = Easy | Moderate | Advanced

record ExampleSentence =
  type_e :: difficulty
  sentence :: string

record WordData =
  id_w :: "string option"
  word :: string
  partOfSpeech :: string
  hindiMeaning :: string
  ipa :: string
  simplePhonetics :: string
  morphology :: "string option"
  synonyms :: "string list option"
  antonyms :: "string list option"
  examples :: "ExampleSentence list"
  userCustomSentence :: "string option"
  dateAdded :: "nat option"

text \<open>
  \<open>localStorage\<close> maps a key to the text stored under it. The text is kept as what
  \<open>JSON.parse\<close> makes of it: a word list, or \<open>Unparsable\<close> when parsing raises or the
  text is empty. \<open>JSON.stringify\<close> followed by \<open>JSON.parse\<close> gives back the same word
  list. The storage quota is not modelled.
\<close>

datatype stored = Unparsable | WordList "WordData list"

type_synonym localStorage = "string \<rightharpoonup> stored"

definition MY_LIST :: string where
  "MY_LIST = ''vocabmaster_mylist''"

definition getSavedWords :: "localStorage \<Rightarrow> WordData list" where
  "getSavedWords ls =
     (case ls MY_LIST of
        None \<Rightarrow> []
      | Some Unparsable \<Rightarrow> []
      | Some (WordList ws) \<Rightarrow> ws)"

text \<open>
  \<open>toLowerCase\<close> is the platform's \<open>String.prototype.toLowerCase\<close>; \<open>uuid\<close> and \<open>now\<close>
  are what \<open>crypto.randomUUID()\<close> and \<open>Date.now()\<close> return in this call.
\<close>

definition saveWord ::
  "(string \<Rightarrow> string) \<Rightarrow> string \<Rightarrow> nat \<Rightarrow> WordData \<Rightarrow> localStorage \<Rightarrow> bool \<times> localStorage" where
  "saveWord toLowerCase uuid now w ls =
     (let words = getSavedWords ls
      in if \<not> list_ex (\<lambda>v. toLowerCase (word v) = toLowerCase (word w)) words
         then let newWord = w\<lparr> id_w := Some uuid, dateAdded := Some now \<rparr>
              in (True, ls(MY_LIST \<mapsto> WordList (newWord # words)))
         else (False, ls))"

subsection \<open>Example words\<close>

text \<open>
  \<open>ascii_toLowerCase\<close> is \<open>toLowerCase\<close> on text whose letters are ASCII; \<open>entry\<close> is a
  word record as the lookup returns it, before it is saved.
\<close>

definition ascii_toLowerCase :: "string \<Rightarrow> string" where
  "ascii_toLowerCase s =
     map (\<lambda>c. case index_of ''ABCDEFGHIJKLMNOPQRSTUVWXYZ'' c of
                 None \<Rightarrow> c
               | Some i \<Rightarrow> ''abcdefghijklmnopqrstuvwxyz'' ! i) s"

definition entry :: "string \<Rightarrow> WordData" where
  "entry w = \<lparr> id_w = None, word = w, partOfSpeech = ''Noun'', hindiMeaning = [],
     ipa = [], simplePhonetics = [], morphology = None, synonyms = None,
     antonyms = None, examples = [], userCustomSentence = None, dateAdded = None \<rparr>"

section \<open>Properties of the base64 codec\<close>

lemma index_of_nth:
  "distinct xs \<Longrightarrow> n < length xs \<Longrightarrow> index_of xs (xs ! n) = Some n"
proof (induction xs arbitrary: n)
  case Nil
  then show ?case by simp
next
  case (Cons x xs)
  show ?case
  proof (cases n)
    case 0
    then show ?thesis by simp
  next
    case (Suc m)
    with Cons.prems have "xs ! m \<in> set xs" "x \<notin> set xs" by auto
    then have "x \<noteq> xs ! m" by auto
    with Cons Suc show ?thesis by simp
  qed
qed

lemma length_b64_alphabet: "length b64_alphabet = 64"
  by (simp add: b64_alphabet_def)

lemma distinct_b64_alphabet: "distinct b64_alphabet"
  by (simp add: b64_alphabet_def)

lemma b64_alphabet_plain:
  "list_all (\<lambda>c. c \<noteq> CHR ''='' \<and> \<not> is_ascii_whitespace c) b64_alphabet"
  by (simp add: b64_alphabet_def is_ascii_whitespace_def)

lemma b64_index_char: "n < 64 \<Longrightarrow> b64_index (b64_char n) = Some n"
  by (simp add: b64_index_def b64_char_def index_of_nth distinct_b64_alphabet
      length_b64_alphabet)

lemma b64_char_plain:
  assumes "n < 64"
  shows "b64_char n \<noteq> CHR ''=''" and "\<not> is_ascii_whitespace (b64_char n)"
proof -
  from assms have "b64_char n \<in> set b64_alphabet"
    by (simp add: b64_char_def length_b64_alphabet)
  with b64_alphabet_plain
  show "b64_char n \<noteq> CHR ''=''" and "\<not> is_ascii_whitespace (b64_char n)"
    by (auto simp: list_all_iff)
qed

lemma b64_digits_bound:
  "list_all (\<lambda>u. u < 256) s \<Longrightarrow> list_all (\<lambda>d. d < 64) (b64_digits s)"
  by (induction s rule: b64_digits.induct) auto

lemma sextet_arith:
  fixes a b c :: nat
  assumes "a < 256" "b < 256" "c < 256"
  shows "(a div 4) * 4 + ((a mod 4) * 16 + b div 16) div 16 = a"
    and "(((a mod 4) * 16 + b div 16) mod 16) * 16 + ((b mod 16) * 4 + c div 64) div 4 = b"
    and "(((b mod 16) * 4 + c div 64) mod 4) * 64 + c mod 64 = c"
    and "(((a mod 4) * 16 + b div 16) mod 16) * 16 + ((b mod 16) * 4) div 4 = b"
    and "(a div 4) * 4 + ((a mod 4) * 16) div 16 = a"
proof -
  from assms have b: "b div 16 < 16" and c: "c div 64 < 4" by simp_all
  show "(a div 4) * 4 + ((a mod 4) * 16 + b div 16) div 16 = a"
    using b by simp
  show "(((a mod 4) * 16 + b div 16) mod 16) * 16 + ((b mod 16) * 4 + c div 64) div 4 = b"
    using b c by simp
  show "(((b mod 16) * 4 + c div 64) mod 4) * 64 + c mod 64 = c"
    using c by simp
  show "(((a mod 4) * 16 + b div 16) mod 16) * 16 + ((b mod 16) * 4) div 4 = b"
    using b by simp
  show "(a div 4) * 4 + ((a mod 4) * 16) div 16 = a"
    by simp
qed

lemma atob_groups_b64_digits:
  "list_all (\<lambda>u. u < 256) s \<Longrightarrow> atob_groups (b64_digits s) = s"
proof (induction s rule: b64_digits.induct)
  case (1 a b c rest)
  then have "a < 256" "b < 256" "c < 256" by simp_all
  from sextet_arith(1-3) [OF this] 1 show ?case by simp
next
  case (2 a b)
  then have "a < 256" "b < 256" by simp_all
  from sextet_arith(1,4) [OF this this(2)] show ?case by simp
next
  case (3 a)
  then have "a < 256" by simp
  from sextet_arith(5) [OF this this this] show ?case by simp
qed simp

lemma length_b64_digits:
  "length (b64_digits s) mod 4 \<noteq> 1"
  "(length (b64_digits s) + b64_padding (length s)) mod 4 = 0"
  by (induction s rule: b64_digits.induct) (simp_all add: b64_padding_def)

lemma b64_padding_le: "b64_padding n \<le> 2"
  by (simp add: b64_padding_def)

lemma strip_padding_replicate:
  assumes "(length xs + k) mod 4 = 0" and "k \<le> 2" and "xs = [] \<or> last xs \<noteq> CHR ''=''"
  shows "strip_padding (xs @ replicate k (CHR ''='')) = xs"
proof -
  from assms(2) consider "k = 0" | "k = 1" | "k = 2" by arith
  then show ?thesis
  proof cases
    case 1
    with assms show ?thesis by (auto simp: strip_padding_def)
  next
    case 2
    with assms show ?thesis by (auto simp: strip_padding_def)
  next
    case 3
    then have "replicate k (CHR ''='') = [CHR ''='', CHR ''='']"
      by (simp add: numeral_2_eq_2)
    with assms 3 show ?thesis
      by (auto simp: strip_padding_def butlast_append)
  qed
qed

lemma sextets_b64_char:
  "list_all (\<lambda>d. d < 64) ds \<Longrightarrow> sextets (map b64_char ds) = Some ds"
  by (induction ds) (simp_all add: b64_index_char)

lemma filter_whitespace_b64:
  assumes "list_all (\<lambda>d. d < 64) ds"
  shows "filter (\<lambda>c. \<not> is_ascii_whitespace c) (map b64_char ds @ replicate k (CHR ''=''))
     = map b64_char ds @ replicate k (CHR ''='')"
proof -
  have "\<not> is_ascii_whitespace (CHR ''='')"
    by (simp add: is_ascii_whitespace_def)
  then have "filter (\<lambda>c. \<not> is_ascii_whitespace c) (replicate k (CHR ''='')) = replicate k (CHR ''='')"
    by simp
  moreover from assms
  have "filter (\<lambda>c. \<not> is_ascii_whitespace c) (map b64_char ds) = map b64_char ds"
    by (induction ds) (simp_all add: b64_char_plain)
  ultimately show ?thesis by simp
qed

lemma atob_btoa:
  assumes "list_all (\<lambda>u. u < 256) s"
  shows "\<exists>t. btoa s = Inr t \<and> atob t = Inr s"
proof -
  let ?ds = "b64_digits s"
  let ?t = "map b64_char ?ds @ replicate (b64_padding (length s)) (CHR ''='')"
  have ds: "list_all (\<lambda>d. d < 64) ?ds"
    using assms by (rule b64_digits_bound)
  have last: "map b64_char ?ds = [] \<or> last (map b64_char ?ds) \<noteq> CHR ''=''"
  proof (cases "?ds = []")
    case False
    then have "last ?ds \<in> set ?ds" by simp
    with ds have "last ?ds < 64" by (auto simp: list_all_iff)
    with False show ?thesis by (simp add: last_map b64_char_plain)
  qed simp
  have "strip_padding ?t = map b64_char ?ds"
    using length_b64_digits(2) [of s] b64_padding_le last
    by (intro strip_padding_replicate) simp_all
  then have "strip_padding (filter (\<lambda>c. \<not> is_ascii_whitespace c) ?t) = map b64_char ?ds"
    by (simp only: filter_whitespace_b64 [OF ds])
  then have "atob ?t = Inr s"
    using length_b64_digits(1) [of s]
    by (simp add: atob_def sextets_b64_char [OF ds] atob_groups_b64_digits [OF assms])
  moreover have "btoa s = Inr ?t"
    using assms by (simp add: btoa_def)
  ultimately show ?thesis by blast
qed

lemma base64_codec_inverse:
  "\<exists>t. arrayBufferToBase64 b = Inr t \<and> base64ToUint8Array t = Inr b"
proof -
  have "list_all (\<lambda>u. u < 256) (map unat b)"
  proof (induction b)
    case (Cons w ws)
    have "unat w < 2 ^ LENGTH(8)" by (rule unsigned_less)
    with Cons show ?case by simp
  qed simp
  from atob_btoa [OF this] obtain t
    where t: "btoa (map unat b) = Inr t" "atob t = Inr (map unat b)" by blast
  have "map of_nat (map unat b) = b"
    by (induction b) simp_all
  with t show ?thesis
    by (simp add: arrayBufferToBase64_def base64ToUint8Array_def)
qed

text \<open>
  C7. For every byte sequence \<open>b\<close> (the empty one, ones with zero bytes, any of the 256
  byte values), \<open>arrayBufferToBase64\<close> returns a text, and \<open>base64ToUint8Array\<close> of that
  text returns exactly \<open>b\<close>.
\<close>

theorem base64ToUint8Array_arrayBufferToBase64:
  "\<exists>t. arrayBufferToBase64 b = Inr t \<and> base64ToUint8Array t = Inr b"
  by (rule base64_codec_inverse)

theorem base64ToUint8Array_arrayBufferToBase64_witness:
  "\<exists>t. arrayBufferToBase64 [0, 255, 0, 65] = Inr t \<and> base64ToUint8Array t = Inr [0, 255, 0, 65]"
  using base64ToUint8Array_arrayBufferToBase64 [of "[0, 255, 0, 65]"] .

section \<open>Properties of the PCM codec\<close>

lemma getInt16_int16_bytes: "getInt16 (ucast w) (ucast (drop_bit 8 w)) = (w :: int16)"
  unfolding getInt16_def
  by (rule bit_word_eqI) (auto simp: bit_simps)

lemma trunc_bounds:
  assumes "real_of_int a \<le> x" "x \<le> real_of_int b"
  shows "a \<le> trunc x" "trunc x \<le> b"
  using assms unfolding trunc_def by (auto simp: le_floor_iff floor_le_iff) linarith+

lemma scaled_sample_cases:
  "scaled_sample x = (if x < 0 then max (- 1) x * 32768 else min 1 x * 32767)"
  by (simp add: scaled_sample_def Let_def max_def min_def)

lemma scaled_sample_range: "- 32768 \<le> scaled_sample x" "scaled_sample x \<le> 32767"
  by (simp_all add: scaled_sample_cases max_def min_def)

lemma trunc_scaled_range: "- 32768 \<le> trunc (scaled_sample x)" "trunc (scaled_sample x) \<le> 32767"
  using trunc_bounds [of "- 32768" "scaled_sample x" 32767] scaled_sample_range [of x]
  by simp_all

lemma sint_ToInt16:
  assumes "- 32768 \<le> trunc y" "trunc y \<le> 32767"
  shows "sint (ToInt16 y) = trunc y"
  using assms by (simp add: ToInt16_def sint_sbintrunc' signed_take_bit_int_eq_self)

lemma trunc_error:
  "0 \<le> y \<Longrightarrow> 0 \<le> y - real_of_int (trunc y) \<and> y - real_of_int (trunc y) < 1"
  "y < 0 \<Longrightarrow> 0 \<le> real_of_int (trunc y) - y \<and> real_of_int (trunc y) - y < 1"
  unfolding trunc_def by (simp_all, linarith+)

lemma pcm_to_float_floatTo16BitPCM:
  "pcm_to_float (floatTo16BitPCM input) =
     Inr (map (\<lambda>x. real_of_int (sint (ToInt16 (scaled_sample x))) / 32768) input)"
  by (induction input)
     (simp_all add: floatTo16BitPCM_def floatTo16BitPCM_output_def int16_bytes_def
        getInt16_int16_bytes)

lemma quantised_neg:
  fixes t x :: real
  assumes "0 \<le> t - x * 32768" "t - x * 32768 < 1"
  shows "\<bar>t / 32768 - x\<bar> < 1 / 32768"
proof -
  have "t / 32768 - x = (t - x * 32768) / 32768" by (simp add: field_simps)
  with assms show ?thesis by simp
qed

lemma quantised_pos:
  fixes t x :: real
  assumes "0 \<le> x * 32767 - t" "x * 32767 - t < 1" "0 \<le> x" "x \<le> 1"
  shows "\<bar>t / 32768 - x\<bar> < 2 / 32768"
proof -
  have "x - t / 32768 = (x * 32767 - t + x) / 32768" by (simp add: field_simps)
  moreover have "0 \<le> x * 32767 - t + x" "x * 32767 - t + x < 2" using assms by simp_all
  ultimately have "0 \<le> x - t / 32768" "x - t / 32768 < 2 / 32768" by simp_all
  then show ?thesis by simp
qed

lemma sample_error:
  assumes "- 1 \<le> x" "x \<le> 1"
  shows "\<bar>real_of_int (sint (ToInt16 (scaled_sample x))) / 32768 - x\<bar> < 2 / 32768"
    and "x < 0 \<Longrightarrow> \<bar>real_of_int (sint (ToInt16 (scaled_sample x))) / 32768 - x\<bar> < 1 / 32768"
proof -
  let ?y = "scaled_sample x"
  define t where "t = real_of_int (trunc ?y)"
  have "sint (ToInt16 ?y) = trunc ?y"
    using trunc_scaled_range by (rule sint_ToInt16)
  then have s: "real_of_int (sint (ToInt16 ?y)) = t"
    by (simp only: t_def)
  have neg: "\<bar>t / 32768 - x\<bar> < 1 / 32768" if "x < 0"
  proof -
    from that assms have y: "?y = x * 32768" by (simp add: scaled_sample_cases max_def)
    with that have "?y < 0" by simp
    from trunc_error(2) [OF this] have "0 \<le> t - x * 32768" "t - x * 32768 < 1"
      by (simp_all add: t_def y)
    then show ?thesis by (rule quantised_neg)
  qed
  show "x < 0 \<Longrightarrow> \<bar>real_of_int (sint (ToInt16 ?y)) / 32768 - x\<bar> < 1 / 32768"
    unfolding s by (rule neg)
  show "\<bar>real_of_int (sint (ToInt16 ?y)) / 32768 - x\<bar> < 2 / 32768"
    unfolding s
  proof (cases "x < 0")
    case True
    from neg [OF this] show "\<bar>t / 32768 - x\<bar> < 2 / 32768" by simp
  next
    case False
    with assms have y: "?y = x * 32767" by (simp add: scaled_sample_cases min_def)
    with False have "0 \<le> ?y" by simp
    from trunc_error(1) [OF this] have "0 \<le> x * 32767 - t" "x * 32767 - t < 1"
      by (simp_all add: t_def y)
    moreover from False have "0 \<le> x" by simp
    ultimately show "\<bar>t / 32768 - x\<bar> < 2 / 32768"
      using assms(2) by (rule quantised_pos)
  qed
qed



text \<open>
  C1, as stated, fails: the sample 65535/65536 (a \<open>Float32\<close> value) is encoded as 32766
  and decoded as 16383/16384, which is 3/65536 away, more than 1/32768.
\<close>

theorem floatTo16BitPCM_roundtrip_counterexample:
  "pcm_to_float (floatTo16BitPCM [65535 / 65536]) = Inr [16383 / 16384]
   \<and> \<not> \<bar>16383 / 16384 - 65535 / 65536\<bar> \<le> (1 / 32768 :: real)"
  by (simp add: pcm_to_float_floatTo16BitPCM scaled_sample_cases ToInt16_def trunc_def)

text \<open>
  C1, amended. For every array of samples each in [-1,1], decoding the encoded array
  (the bytes of \<open>floatTo16BitPCM\<close> read back by the loop of \<open>playAudioChunk\<close>) gives an array
  of the same length in which every sample is less than 2/32768 away from the original,
  and less than 1/32768 away where the original is negative.
\<close>

theorem floatTo16BitPCM_roundtrip_error:
  assumes "\<forall>x \<in> set input. - 1 \<le> x \<and> x \<le> 1"
  shows "\<exists>out. pcm_to_float (floatTo16BitPCM input) = Inr out
           \<and> length out = length input
           \<and> (\<forall>i < length input.
                 \<bar>out ! i - input ! i\<bar> < 2 / 32768
                 \<and> (input ! i < 0 \<longrightarrow> \<bar>out ! i - input ! i\<bar> < 1 / 32768))"
proof -
  let ?out = "map (\<lambda>x. real_of_int (sint (ToInt16 (scaled_sample x))) / 32768) input"
  have "\<bar>?out ! i - input ! i\<bar> < 2 / 32768
        \<and> (input ! i < 0 \<longrightarrow> \<bar>?out ! i - input ! i\<bar> < 1 / 32768)"
    if "i < length input" for i
  proof -
    from that assms have "- 1 \<le> input ! i" "input ! i \<le> 1" by simp_all
    from sample_error [OF this] that show ?thesis by simp
  qed
  then show ?thesis
    by (intro exI [of _ ?out]) (simp add: pcm_to_float_floatTo16BitPCM)
qed

theorem floatTo16BitPCM_roundtrip_error_witness:
  "pcm_to_float (floatTo16BitPCM [65535 / 65536, - 1 / 3]) = Inr [16383 / 16384, - 5461 / 16384]
   \<and> \<bar>16383 / 16384 - 65535 / 65536\<bar> < (2 / 32768 :: real)
   \<and> \<bar>- 5461 / 16384 - (- 1 / 3)\<bar> < (1 / 32768 :: real)"
proof -
  let ?input = "[65535 / 65536, - 1 / 3 :: real]"
  have h: "\<forall>x \<in> set ?input. - 1 \<le> x \<and> x \<le> 1" by simp
  from floatTo16BitPCM_roundtrip_error [OF h] obtain out
    where out: "pcm_to_float (floatTo16BitPCM ?input) = Inr out"
      and err: "\<forall>i < length ?input.
                 \<bar>out ! i - ?input ! i\<bar> < 2 / 32768
                 \<and> (?input ! i < 0 \<longrightarrow> \<bar>out ! i - ?input ! i\<bar> < 1 / 32768)"
    by blast
  have "pcm_to_float (floatTo16BitPCM ?input) = Inr [16383 / 16384, - 5461 / 16384]"
    by (simp add: pcm_to_float_floatTo16BitPCM scaled_sample_cases ToInt16_def trunc_def)
  with out have o: "out = [16383 / 16384, - 5461 / 16384]" by simp
  from err [rule_format, of 0] err [rule_format, of 1] out show ?thesis
    unfolding o by simp
qed

section \<open>Properties of the double-precision rounding\<close>

lemma binade_iff:
  assumes "0 < x"
  shows "binade x = e \<longleftrightarrow> 2 powi e \<le> x \<and> x < 2 powi (e + 1)"
  using floor_log_eq_powr_iff [of x 2 e] assms
    powr_real_of_int' [of 2 e] powr_real_of_int' [of 2 "e + 1"]
  by (simp add: binade_def)

lemma binade_bounds:
  assumes "0 < x"
  shows "2 powi binade x \<le> x" and "x < 2 powi (binade x + 1)"
  using binade_iff [OF assms, of "binade x"] by simp_all

lemma binade_mono:
  assumes "0 < x" "x \<le> y"
  shows "binade x \<le> binade y"
  unfolding binade_def using assms by (intro floor_mono log_mono) simp_all

lemma rne_ge:
  assumes "of_int n \<le> y"
  shows "n \<le> rne y"
proof -
  from assms have "n \<le> \<lfloor>y\<rfloor>" by (simp add: le_floor_iff)
  moreover have "\<lfloor>y\<rfloor> \<le> rne y" by (simp add: rne_def Let_def)
  ultimately show ?thesis by (rule order_trans)
qed

lemma rne_le:
  assumes "y \<le> of_int n"
  shows "rne y \<le> n"
proof (cases "y - of_int \<lfloor>y\<rfloor> < 1 / 2")
  case True
  with assms show ?thesis
    by (simp add: rne_def Let_def floor_le_iff)
next
  case False
  then have "of_int \<lfloor>y\<rfloor> < y" by linarith
  with assms have "of_int \<lfloor>y\<rfloor> < (of_int n :: real)" by linarith
  then have "\<lfloor>y\<rfloor> + 1 \<le> n" by simp
  moreover have "rne y \<le> \<lfloor>y\<rfloor> + 1" by (simp add: rne_def Let_def)
  ultimately show ?thesis by linarith
qed

lemma rne_of_int: "rne (of_int n) = n"
  by (simp add: rne_def)

lemma fl_pos:
  assumes "0 < x"
  shows "fl x = of_int (rne (x * 2 ^ 52 / 2 powi binade x)) * (2 powi binade x / 2 ^ 52)"
proof -
  let ?u = "(2 :: real) powi (binade x - 52)"
  have u: "?u = 2 powi binade x / 2 ^ 52"
    by (simp add: power_int_diff)
  have "x / (2 powi binade x / 2 ^ 52) = x * 2 ^ 52 / 2 powi binade x"
    by simp
  then have "x / ?u = x * 2 ^ 52 / 2 powi binade x"
    by (simp only: u)
  moreover from assms have "fl x = of_int (rne (x / ?u)) * ?u"
    by (simp add: fl_def Let_def)
  ultimately show ?thesis by (simp only: u)
qed

lemma significand_range:
  assumes "0 < x"
  shows "2 ^ 52 \<le> rne (x * 2 ^ 52 / 2 powi binade x)"
    and "rne (x * 2 ^ 52 / 2 powi binade x) \<le> 2 ^ 53"
proof -
  let ?p = "(2 :: real) powi binade x"
  have p: "0 < ?p" by simp
  from binade_bounds [OF assms] have b: "?p \<le> x" "x < 2 * ?p"
    by (simp_all add: power_int_add)
  from b(1) p have "2 ^ 52 \<le> x * 2 ^ 52 / ?p"
    by (simp add: field_simps)
  then have "of_int (2 ^ 52) \<le> x * 2 ^ 52 / ?p" by simp
  then show "2 ^ 52 \<le> rne (x * 2 ^ 52 / ?p)" by (rule rne_ge)
  from b(2) p have "x * 2 ^ 52 / ?p \<le> 2 ^ 53"
    by (simp add: field_simps)
  then have "x * 2 ^ 52 / ?p \<le> of_int (2 ^ 53)" by simp
  then show "rne (x * 2 ^ 52 / ?p) \<le> 2 ^ 53" by (rule rne_le)
qed

lemma fl_range:
  assumes "0 < x"
  shows "2 powi binade x \<le> fl x" and "fl x \<le> 2 powi (binade x + 1)"
proof -
  let ?p = "(2 :: real) powi binade x"
  let ?n = "rne (x * 2 ^ 52 / ?p)"
  have p: "0 < ?p" by simp
  from significand_range [OF assms]
  have "(2 ^ 52 :: real) \<le> of_int ?n" "of_int ?n \<le> (2 ^ 53 :: real)"
    by (metis of_int_le_iff of_int_numeral of_int_power)+
  with p have "?p \<le> of_int ?n * (?p / 2 ^ 52)" "of_int ?n * (?p / 2 ^ 52) \<le> 2 * ?p"
    by (simp_all add: field_simps)
  then show "?p \<le> fl x" "fl x \<le> 2 powi (binade x + 1)"
    by (simp_all add: fl_pos [OF assms] power_int_add)
qed

lemma fl_nonneg: "0 \<le> x \<Longrightarrow> 0 \<le> fl x"
proof (cases "x = 0")
  case False
  assume "0 \<le> x"
  with False have "0 < x" by simp
  from fl_range(1) [OF this] show ?thesis
    by (meson less_eq_real_def order_trans zero_less_power_int zero_less_numeral)
qed (simp add: fl_def)

lemma fl_idem:
  assumes "0 \<le> x"
  shows "fl (fl x) = fl x"
proof (cases "x = 0")
  case True
  then show ?thesis by (simp add: fl_def)
next
  case False
  with assms have x: "0 < x" by simp
  let ?e = "binade x"
  let ?p = "(2 :: real) powi ?e"
  let ?n = "rne (x * 2 ^ 52 / ?p)"
  have p: "0 < ?p" by simp
  have y: "fl x = of_int ?n * (?p / 2 ^ 52)" by (rule fl_pos [OF x])
  from fl_range(1) [OF x] p have ypos: "0 < fl x" by linarith
  from significand_range [OF x] have n: "2 ^ 52 \<le> ?n" "?n \<le> 2 ^ 53" .
  show ?thesis
  proof (cases "?n = 2 ^ 53")
    case True
    then have top: "fl x = 2 powi (?e + 1)"
      by (simp add: y power_int_add)
    then have "2 powi (?e + 1) \<le> fl x \<and> fl x < 2 powi (?e + 1 + 1)"
      by (simp add: power_int_add)
    then have "binade (fl x) = ?e + 1"
      by (simp only: binade_iff [OF ypos])
    then have "fl (fl x) = of_int (rne (fl x * 2 ^ 52 / 2 powi (?e + 1))) * (2 powi (?e + 1) / 2 ^ 52)"
      using fl_pos [OF ypos] by (simp only:)
    also have "fl x * 2 ^ 52 / 2 powi (?e + 1) = of_int (2 ^ 52)"
      by (simp add: top)
    finally show ?thesis
      by (simp only: rne_of_int) (simp add: top)
  next
    case False
    with n have n': "?n < 2 ^ 53" by simp
    then have "(of_int ?n :: real) < of_int (2 ^ 53)" by (simp only: of_int_less_iff)
    then have lt: "(of_int ?n :: real) < 2 ^ 53" by simp
    from n(1) have "(of_int (2 ^ 52) :: real) \<le> of_int ?n" by (simp only: of_int_le_iff)
    then have ge: "(2 ^ 52 :: real) \<le> of_int ?n" by simp
    from ge lt p have "?p \<le> fl x" "fl x < 2 * ?p"
      by (simp_all add: y field_simps)
    then have "?p \<le> fl x \<and> fl x < 2 powi (?e + 1)"
      by (simp add: power_int_add)
    then have "binade (fl x) = ?e"
      by (simp only: binade_iff [OF ypos])
    then have "fl (fl x) = of_int (rne (fl x * 2 ^ 52 / ?p)) * (?p / 2 ^ 52)"
      using fl_pos [OF ypos] by (simp only:)
    also have "fl x * 2 ^ 52 / ?p = of_int ?n"
      using p by (simp add: y)
    finally show ?thesis
      by (simp only: rne_of_int y)
  qed
qed

lemma fl_ge:
  assumes "0 \<le> s" "fl s = s" "s \<le> x"
  shows "s \<le> fl x"
proof (cases "s = 0")
  case True
  with assms fl_nonneg [of x] show ?thesis by simp
next
  case False
  with assms have s: "0 < s" and x: "0 < x" by simp_all
  let ?p = "(2 :: real) powi binade x"
  have p: "0 < ?p" by simp
  from binade_mono [OF s assms(3)] consider "binade s = binade x" | "binade s < binade x"
    by linarith
  then show ?thesis
  proof cases
    case 1
    let ?m = "rne (s * 2 ^ 52 / ?p)"
    from fl_pos [OF s] assms(2) 1 have sm: "s = of_int ?m * (?p / 2 ^ 52)" by simp
    then have "s * 2 ^ 52 / ?p = of_int ?m" using p by (simp add: field_simps)
    moreover from assms(3) p have "s * 2 ^ 52 / ?p \<le> x * 2 ^ 52 / ?p"
      by (simp add: field_simps)
    ultimately have "of_int ?m \<le> x * 2 ^ 52 / ?p" by simp
    then have "?m \<le> rne (x * 2 ^ 52 / ?p)" by (rule rne_ge)
    then have "(of_int ?m :: real) \<le> of_int (rne (x * 2 ^ 52 / ?p))" by (simp only: of_int_le_iff)
    with p have "of_int ?m * (?p / 2 ^ 52) \<le> of_int (rne (x * 2 ^ 52 / ?p)) * (?p / 2 ^ 52)"
      by (simp add: field_simps)
    with sm show ?thesis by (simp add: fl_pos [OF x])
  next
    case 2
    then have "binade s + 1 \<le> binade x" by simp
    then have "(2 :: real) powi (binade s + 1) \<le> ?p"
      by (intro power_int_increasing) simp_all
    with binade_bounds(2) [OF s] fl_range(1) [OF x] show ?thesis by linarith
  qed
qed

lemma fl_eval:
  assumes "0 < x" "2 powi e \<le> x" "x < 2 powi (e + 1)"
  shows "fl x = of_int (rne (x * 2 ^ 52 / 2 powi e)) * (2 powi e / 2 ^ 52)"
proof -
  from assms have "binade x = e" by (simp add: binade_iff)
  with fl_pos [OF assms(1)] show ?thesis by simp
qed

lemma fl_frame: "fl (1 / 24000) = 6148914691236517 / 147573952589676412928"
  by (subst fl_eval [where e = "- 15"]) (simp_all add: rne_def)

lemma fl_four: "fl 4 = 4"
  by (subst fl_eval [where e = 2]) (simp_all add: rne_def)

lemma fl_sum:
  "fl (590301959273396888229 / 147573952589676412928) = 2251823269933307 / 562949953421312"
  by (subst fl_eval [where e = 2]) (simp_all add: rne_def)

section \<open>Properties of the playback scheduler\<close>

lemma is_double_fl: "0 \<le> x \<Longrightarrow> is_double (fl x)"
  by (simp add: is_double_def fl_idem)

lemma is_double_max: "is_double a \<Longrightarrow> is_double b \<Longrightarrow> is_double (max a b)"
  by (simp add: max_def)

lemma duration_nonneg: "0 \<le> duration buf"
  by (simp add: duration_def fl_nonneg)

lemma cursor_after_start:
  assumes "is_double s" "0 \<le> s" "0 \<le> d"
  shows "s \<le> fl (s + d)"
  using assms by (intro fl_ge) (simp_all add: is_double_def)

lemma length_pcm_to_float:
  "pcm_to_float audioBytes = Inr channelData \<Longrightarrow> length channelData = length audioBytes div 2"
  by (induction audioBytes arbitrary: channelData rule: pcm_to_float.induct)
     (auto split: sum.splits)

lemma playAudioChunk_Inr:
  assumes "playAudioChunk now b st = Inr (st', acts)"
  shows "(audioContextRef st = None \<and> st' = st \<and> acts = [])
       \<or> (\<exists>ctx audioBytes channelData. audioContextRef st = Some ctx
             \<and> base64ToUint8Array b = Inr audioBytes
             \<and> pcm_to_float audioBytes = Inr channelData
             \<and> acts = [StartSource ctx (max now (nextStartTimeRef st)) channelData]
             \<and> st' = st\<lparr> nextStartTimeRef :=
                         fl (max now (nextStartTimeRef st) + duration channelData) \<rparr>)"
  using assms
  by (auto simp: playAudioChunk_def Let_def split: option.splits sum.splits if_splits)

lemma back_to_back_Cons:
  assumes "back_to_back xs" "list_all (\<lambda>(s, d'). fl (t + d) \<le> s) xs" "t \<le> fl (t + d)"
  shows "back_to_back ((t, d) # xs)"
  using assms by (cases xs) auto

lemma play_chunks_schedule:
  assumes "is_double (nextStartTimeRef st)" "0 \<le> nextStartTimeRef st"
    and "list_all (\<lambda>(now, b). is_double now \<and> 0 \<le> now) cs"
  shows "back_to_back (scheduled (snd (play_chunks cs st)))
   \<and> list_all (\<lambda>(s, d). nextStartTimeRef st \<le> s) (scheduled (snd (play_chunks cs st)))"
  using assms
proof (induction cs arbitrary: st)
  case Nil
  show ?case by simp
next
  case (Cons c cs)
  obtain now b where c: "c = (now, b)" by (cases c)
  from Cons.prems(3) c have now: "is_double now" "0 \<le> now"
    and rest: "list_all (\<lambda>(now, b). is_double now \<and> 0 \<le> now) cs" by simp_all
  show ?case
  proof (cases "playAudioChunk now b st")
    case (Inl e)
    with Cons.IH [OF Cons.prems(1,2) rest] c show ?thesis by simp
  next
    case (Inr r)
    obtain st1 a1 where r: "r = (st1, a1)" by (cases r)
    obtain st2 a2 where p: "play_chunks cs st1 = (st2, a2)" by (cases "play_chunks cs st1")
    from playAudioChunk_Inr [OF Inr [unfolded r]]
    show ?thesis
    proof (elim disjE conjE exE)
      assume "st1 = st" "a1 = []"
      with Cons.IH [OF Cons.prems(1,2) rest] Inr r p c show ?thesis by simp
    next
      fix ctx audioBytes channelData
      let ?t = "max now (nextStartTimeRef st)"
      let ?d = "duration channelData"
      assume a: "a1 = [StartSource ctx ?t channelData]"
        and s: "st1 = st\<lparr> nextStartTimeRef := fl (?t + ?d) \<rparr>"
      from now Cons.prems(1,2) have t: "is_double ?t" "0 \<le> ?t"
        by (simp_all add: is_double_max)
      from t duration_nonneg have grow: "?t \<le> fl (?t + ?d)"
        by (rule cursor_after_start)
      from t(2) duration_nonneg [of channelData] have "0 \<le> ?t + ?d" by simp
      then have "is_double (fl (?t + ?d))" "0 \<le> fl (?t + ?d)"
        by (simp_all add: is_double_fl fl_nonneg)
      with s have "is_double (nextStartTimeRef st1)" "0 \<le> nextStartTimeRef st1" by simp_all
      from Cons.IH [OF this rest] p s
      have ih: "back_to_back (scheduled a2)"
        and later: "list_all (\<lambda>(s, d'). fl (?t + ?d) \<le> s) (scheduled a2)" by simp_all
      from ih later grow have "back_to_back ((?t, ?d) # scheduled a2)"
        by (rule back_to_back_Cons)
      moreover have "list_all (\<lambda>(s, d). nextStartTimeRef st \<le> s) (scheduled a2)"
        using later grow by (auto simp: list_all_iff)
      ultimately show ?thesis
        using Inr r p c a by simp
    qed
  qed
qed

lemma live_call_eq:
  "live_call = \<lparr> activeCall = Some priya, isMicOn = True, connectionStatus = Connected,
     volumeLevel = Some 0, audioContextRef = Some 1, inputSourceRef = Some 4,
     processorRef = Some 5, streamRef = Some 2, nextStartTimeRef = 0,
     sessionPromiseRef = Some 3, scope_isMicOn = True, handler_isMicOn = Some True \<rparr>"
  by (simp add: live_call_def connecting_call_def onopen_def startAudioPipeline_def
      startCall_granted_def startCall_begin_def initial_def)

lemma base64_one_frame: "base64ToUint8Array ''AAA='' = Inr [0, 0]"
  by (simp add: base64ToUint8Array_def atob_def strip_padding_def is_ascii_whitespace_def
      b64_index_def b64_alphabet_def)

lemma duration_one_frame: "duration [0] = 6148914691236517 / 147573952589676412928"
  by (simp add: duration_def OUTPUT_SAMPLE_RATE_def fl_frame)

lemma two_chunks_at_four:
  "scheduled (snd (play_chunks [(4, ''AAA=''), (4, ''AAA='')] live_call))
     = [(4, 6148914691236517 / 147573952589676412928),
        (2251823269933307 / 562949953421312, 6148914691236517 / 147573952589676412928)]"
  by (simp add: live_call_eq playAudioChunk_def base64_one_frame getInt16_def
      duration_one_frame fl_sum)

text \<open>
  C2, as stated, fails: two one-frame chunks arrive at clock reading 4 with the cursor
  at 0. The first starts at 4 and lasts \<open>fl (1 / 24000)\<close>; the sum of the two is rounded
  down when the cursor is stored, so the second chunk starts before the first start time
  plus the first duration.
\<close>

theorem playAudioChunk_exact_sum_counterexample:
  "scheduled (snd (play_chunks [(4, ''AAA=''), (4, ''AAA='')] live_call))
     = [(4, 6148914691236517 / 147573952589676412928),
        (2251823269933307 / 562949953421312, 6148914691236517 / 147573952589676412928)]
   \<and> \<not> (4 + 6148914691236517 / 147573952589676412928
           \<le> (2251823269933307 / 562949953421312 :: real))"
proof -
  have "\<not> (4 + 6148914691236517 / 147573952589676412928
           \<le> (2251823269933307 / 562949953421312 :: real))"
    by simp
  with two_chunks_at_four show ?thesis by (rule conjI)
qed

text \<open>
  C2, amended. A call of \<open>playAudioChunk\<close> that decodes its payload and schedules it
  starts the decoded samples at the maximum of the clock reading and the cursor, and sets
  the cursor to the double-precision sum of that start time and the chunk's duration,
  the number of frames in the payload divided by 24000 in double precision. Over any
  sequence of chunks arriving at clock readings that are non-negative doubles (equal ones
  included), from a cursor that is one, each start time is at least the previous start
  time and at least the cursor the previous chunk left, that rounded sum; no start time
  is before the cursor the sequence began with.
\<close>

theorem playAudioChunk_schedule:
  "(audioContextRef st = Some ctx \<and> base64ToUint8Array base64Audio = Inr audioBytes
      \<and> playAudioChunk now base64Audio st = Inr (st', acts) \<longrightarrow>
      (\<exists>channelData. pcm_to_float audioBytes = Inr channelData
         \<and> length channelData = length audioBytes div 2
         \<and> acts = [StartSource ctx (max now (nextStartTimeRef st)) channelData]
         \<and> st' = st\<lparr> nextStartTimeRef :=
                     fl (max now (nextStartTimeRef st)
                         + fl (real (length audioBytes div 2) / 24000)) \<rparr>))
   \<and> (is_double (nextStartTimeRef st) \<and> 0 \<le> nextStartTimeRef st
        \<and> list_all (\<lambda>(now, b). is_double now \<and> 0 \<le> now) chunks \<longrightarrow>
        back_to_back (scheduled (snd (play_chunks chunks st)))
        \<and> list_all (\<lambda>(s, d). nextStartTimeRef st \<le> s)
             (scheduled (snd (play_chunks chunks st))))"
proof -
  have "\<exists>channelData. pcm_to_float audioBytes = Inr channelData
         \<and> length channelData = length audioBytes div 2
         \<and> acts = [StartSource ctx (max now (nextStartTimeRef st)) channelData]
         \<and> st' = st\<lparr> nextStartTimeRef :=
                     fl (max now (nextStartTimeRef st)
                         + fl (real (length audioBytes div 2) / 24000)) \<rparr>"
    if "audioContextRef st = Some ctx" "base64ToUint8Array base64Audio = Inr audioBytes"
      "playAudioChunk now base64Audio st = Inr (st', acts)"
  proof -
    from playAudioChunk_Inr [OF that(3)] that(1,2) obtain channelData
      where c: "pcm_to_float audioBytes = Inr channelData"
        "acts = [StartSource ctx (max now (nextStartTimeRef st)) channelData]"
        "st' = st\<lparr> nextStartTimeRef :=
                    fl (max now (nextStartTimeRef st) + duration channelData) \<rparr>"
      by auto
    from length_pcm_to_float [OF c(1)]
    have "duration channelData = fl (real (length audioBytes div 2) / 24000)"
      by (simp add: duration_def OUTPUT_SAMPLE_RATE_def)
    with c length_pcm_to_float [OF c(1)] show ?thesis by simp
  qed
  with play_chunks_schedule [of st chunks] show ?thesis by blast
qed

theorem playAudioChunk_schedule_witness:
  "scheduled (snd (play_chunks [(4, ''AAA=''), (4, ''AAA='')] live_call))
     = [(4, 6148914691236517 / 147573952589676412928),
        (2251823269933307 / 562949953421312, 6148914691236517 / 147573952589676412928)]
   \<and> back_to_back
       [(4, 6148914691236517 / 147573952589676412928),
        (2251823269933307 / 562949953421312, 6148914691236517 / 147573952589676412928)]"
proof -
  have "is_double (nextStartTimeRef live_call)" "0 \<le> nextStartTimeRef live_call"
    by (simp_all add: live_call_eq is_double_def fl_def)
  moreover have "list_all (\<lambda>(now, b). is_double now \<and> 0 \<le> now) [(4, ''AAA=''), (4, ''AAA='')]"
    by (simp add: is_double_def fl_four)
  ultimately have "back_to_back (scheduled (snd (play_chunks [(4, ''AAA=''), (4, ''AAA='')] live_call)))"
    using playAudioChunk_schedule [of live_call _ _ _ _ _ _ "[(4, ''AAA=''), (4, ''AAA='')]"]
    by blast
  then show ?thesis by (simp only: two_chunks_at_four simp_thms)
qed

section \<open>Properties of the capture handler\<close>


lemma length_floatTo16BitPCM: "length (floatTo16BitPCM frame) = 2 * length frame"
  by (induction frame)
     (simp_all add: floatTo16BitPCM_def floatTo16BitPCM_output_def int16_bytes_def)


lemma onaudioprocess_dropped:
  assumes "handler_isMicOn st \<noteq> Some True"
  shows "onaudioprocess frame st = (st, [])"
  using assms by (cases "handler_isMicOn st") (auto simp: onaudioprocess_def)

lemma capture_frames_dropped:
  assumes "handler_isMicOn st \<noteq> Some True"
  shows "capture_frames frames st = (st, [])"
  using assms by (induction frames) (simp_all add: onaudioprocess_dropped)


text \<open>
  \<open>toggleMic\<close> changes \<open>isMicOn\<close> and nothing a running handler reads: the frames after
  it are handled as the frames before it.
\<close>

lemma toggleMic_handler:
  "handler_isMicOn (toggleMic st) = handler_isMicOn st"
  "snd (onaudioprocess frame (toggleMic st)) = snd (onaudioprocess frame st)"
  by (auto simp: toggleMic_def onaudioprocess_def Let_def split: option.splits sum.splits)

lemma muted_call_eq:
  "muted_call = \<lparr> activeCall = Some priya, isMicOn = False, connectionStatus = Connected,
     volumeLevel = Some 0, audioContextRef = Some 6, inputSourceRef = Some 9,
     processorRef = Some 10, streamRef = Some 7, nextStartTimeRef = 0,
     sessionPromiseRef = Some 8, scope_isMicOn = False, handler_isMicOn = Some False \<rparr>"
  by (simp add: muted_call_def muted_idle_def live_call_eq toggleMic_def endCall_def
      onopen_def startAudioPipeline_def startCall_granted_def startCall_begin_def)

lemma unmuted_call_eq:
  "unmuted_call = \<lparr> activeCall = Some priya, isMicOn = True, connectionStatus = Connected,
     volumeLevel = Some 0, audioContextRef = Some 6, inputSourceRef = Some 9,
     processorRef = Some 10, streamRef = Some 7, nextStartTimeRef = 0,
     sessionPromiseRef = Some 8, scope_isMicOn = False, handler_isMicOn = Some False \<rparr>"
  by (simp add: unmuted_call_def muted_call_eq toggleMic_def)


text \<open>
  C9. The claim: while the call is connected and unmuted, every captured frame produces
  exactly one transmitted message with MIME type \<open>audio/pcm;rate=16000\<close> and the base64
  text of the frame's 16-bit encoding, in capture order. The code breaks it: in
  \<open>unmuted_call\<close> the session is connected, the capture pipeline is installed and
  \<open>isMicOn\<close> is true, yet the handler still holds the \<open>isMicOn\<close> of the render in which
  the call was started, which was false, and three frames produce no message and change
  nothing.
\<close>

theorem capture_frames_unmuted_call:
  "isMicOn unmuted_call
   \<and> connectionStatus unmuted_call = Connected
   \<and> sessionPromiseRef unmuted_call = Some 8
   \<and> processorRef unmuted_call = Some 10
   \<and> capture_frames [ [1], [1], [1]] unmuted_call = (unmuted_call, [])
   \<and> sends (snd (capture_frames [ [1], [1], [1]] unmuted_call)) = []"
proof -
  have "handler_isMicOn unmuted_call \<noteq> Some True"
    by (simp add: unmuted_call_eq)
  from capture_frames_dropped [OF this, of "[ [1], [1], [1]]"] show ?thesis
    by (simp add: unmuted_call_eq)
qed




section \<open>Properties of the call lifecycle\<close>

lemma endCall_state:
  "fst (endCall st) = st\<lparr> sessionPromiseRef := None, streamRef := None, processorRef := None,
      inputSourceRef := None, audioContextRef := None, activeCall := None,
      connectionStatus := Idle \<rparr>"
  by (cases st) (simp add: endCall_def split: option.splits)

lemma endCall_actions:
  "snd (endCall st) =
     (case sessionPromiseRef st of Some p \<Rightarrow> [ThenClose p] | None \<Rightarrow> [])
     @ (case streamRef st of Some s \<Rightarrow> [StopTracks s] | None \<Rightarrow> [])
     @ (case processorRef st of Some n \<Rightarrow> [DisconnectProcessor n] | None \<Rightarrow> [])
     @ (case inputSourceRef st of Some n \<Rightarrow> [DisconnectSource n] | None \<Rightarrow> [])
     @ (case audioContextRef st of Some c \<Rightarrow> [CloseContext c] | None \<Rightarrow> [])"
  by (simp add: endCall_def split: option.splits)

lemma endCall_released:
  assumes "activeCall st = None" "sessionPromiseRef st = None"
    "streamRef st = None" "processorRef st = None" "inputSourceRef st = None"
    "audioContextRef st = None"
  shows "endCall st = (st\<lparr> connectionStatus := Idle \<rparr>, [])"
  using assms by (intro prod_eqI) (simp_all add: endCall_state endCall_actions)

lemma endCall_twice: "endCall (fst (endCall st)) = (fst (endCall st), [])"
proof -
  have "endCall (fst (endCall st)) = ((fst (endCall st))\<lparr> connectionStatus := Idle \<rparr>, [])"
    by (rule endCall_released) (simp_all add: endCall_state)
  then show ?thesis by (simp add: endCall_state)
qed

lemma endCall_no_media: "list_all (\<lambda>a. \<not> starts_media a) (snd (endCall st))"
  by (simp add: endCall_actions split: option.splits)

lemma onopen_without_context:
  assumes "audioContextRef st = None"
  shows "onopen src proc st = (st\<lparr> connectionStatus := Connected \<rparr>, [])"
  using assms by (simp add: onopen_def startAudioPipeline_def)

lemma onmessage_without_context:
  assumes "audioContextRef st = None"
  shows "onmessage now audioData st = (st, [])"
  using assms by (simp add: onmessage_def split: option.splits)


lemma pending_call_eq:
  "pending_call = \<lparr> activeCall = Some priya, isMicOn = True, connectionStatus = Connecting,
     volumeLevel = Some 0, audioContextRef = Some 1, inputSourceRef = None,
     processorRef = None, streamRef = None, nextStartTimeRef = 0,
     sessionPromiseRef = None, scope_isMicOn = True, handler_isMicOn = None \<rparr>"
  by (simp add: pending_call_def startCall_begin_def initial_def)

lemma connecting_call_eq:
  "connecting_call = \<lparr> activeCall = Some priya, isMicOn = True, connectionStatus = Connecting,
     volumeLevel = Some 0, audioContextRef = Some 1, inputSourceRef = None,
     processorRef = None, streamRef = Some 2, nextStartTimeRef = 0,
     sessionPromiseRef = Some 3, scope_isMicOn = True, handler_isMicOn = None \<rparr>"
  by (simp add: connecting_call_def startCall_granted_def startCall_begin_def initial_def)

lemma late_open_eq:
  "late_open = \<lparr> activeCall = None, isMicOn = True, connectionStatus = Connected,
     volumeLevel = Some 0, audioContextRef = None, inputSourceRef = None,
     processorRef = None, streamRef = None, nextStartTimeRef = 0,
     sessionPromiseRef = None, scope_isMicOn = True, handler_isMicOn = None \<rparr>"
  by (simp add: late_open_def endCall_state onopen_without_context connecting_call_eq)

text \<open>
  After \<open>endCall\<close> the audio context ref is null, and none of the events that may still
  arrive sets it again: each leaves the component without an active call and without
  capture nodes, and none performs an action that starts capture, sending or playback.
\<close>

lemma deliver_after_endCall:
  assumes "activeCall st = None" "audioContextRef st = None"
    "inputSourceRef st = None" "processorRef st = None"
  shows "activeCall (fst (deliver ev st)) = None \<and> audioContextRef (fst (deliver ev st)) = None
    \<and> inputSourceRef (fst (deliver ev st)) = None \<and> processorRef (fst (deliver ev st)) = None
    \<and> list_all (\<lambda>a. \<not> starts_media a) (snd (deliver ev st))"
proof (cases ev)
  case (Granted stream promise)
  with assms show ?thesis by (simp add: startCall_granted_def)
next
  case Failed
  with assms show ?thesis by (simp add: startCall_failed_def)
next
  case (Open src proc)
  with assms show ?thesis by (simp add: onopen_without_context)
next
  case (Message now audioData)
  with assms show ?thesis by (simp add: onmessage_without_context)
next
  case SessionError
  with assms show ?thesis by (simp add: onerror_def)
next
  case Close
  with assms show ?thesis by (simp add: onclose_def endCall_state endCall_no_media)
qed

lemma deliver_all_after_endCall:
  assumes "activeCall st = None" "audioContextRef st = None"
    "inputSourceRef st = None" "processorRef st = None"
  shows "activeCall (fst (deliver_all evs st)) = None
    \<and> audioContextRef (fst (deliver_all evs st)) = None
    \<and> inputSourceRef (fst (deliver_all evs st)) = None
    \<and> processorRef (fst (deliver_all evs st)) = None
    \<and> list_all (\<lambda>a. \<not> starts_media a) (snd (deliver_all evs st))"
  using assms
proof (induction evs arbitrary: st)
  case Nil
  then show ?case by simp
next
  case (Cons ev evs)
  from deliver_after_endCall [OF Cons.prems, of ev]
  have step: "activeCall (fst (deliver ev st)) = None" "audioContextRef (fst (deliver ev st)) = None"
    "inputSourceRef (fst (deliver ev st)) = None" "processorRef (fst (deliver ev st)) = None"
    "list_all (\<lambda>a. \<not> starts_media a) (snd (deliver ev st))"
    by simp_all
  from Cons.IH [OF step(1-4)] step(5) show ?case
    by (simp add: split_beta)
qed

text \<open>
  C4. After \<open>endCall\<close>, invoked while connecting or in any other state, the controller
  is in its no-call state: there is no active call (the component shows the call view
  exactly when there is one) and the status is \<open>idle\<close>. Whatever arrives afterwards
  without a new call being started, open events included, in any order and also after
  the suspended \<open>startCall\<close> has resumed, the component still has no active call, no audio
  context and no capture node, and no action that builds the capture pipeline, sends
  audio or starts playback is performed. An open event right after \<open>endCall\<close> performs no
  action at all and changes only the status cell.
\<close>

theorem endCall_then_late_events:
  "activeCall (fst (endCall st)) = None
   \<and> connectionStatus (fst (endCall st)) = Idle
   \<and> activeCall (fst (deliver_all evs (fst (endCall st)))) = None
   \<and> audioContextRef (fst (deliver_all evs (fst (endCall st)))) = None
   \<and> inputSourceRef (fst (deliver_all evs (fst (endCall st)))) = None
   \<and> processorRef (fst (deliver_all evs (fst (endCall st)))) = None
   \<and> list_all (\<lambda>a. \<not> starts_media a) (snd (deliver_all evs (fst (endCall st))))
   \<and> onopen src proc (fst (endCall st)) =
       ((fst (endCall st))\<lparr> connectionStatus := Connected \<rparr>, [])"
proof -
  have e: "activeCall (fst (endCall st)) = None" "audioContextRef (fst (endCall st)) = None"
    "inputSourceRef (fst (endCall st)) = None" "processorRef (fst (endCall st)) = None"
    by (simp_all add: endCall_state)
  from deliver_all_after_endCall [OF e, of evs] onopen_without_context [OF e(2), of src proc]
  show ?thesis by (simp add: endCall_state)
qed

theorem endCall_then_late_events_witness:
  "connectionStatus pending_call = Connecting
   \<and> activeCall (fst (deliver_all [Granted 2 3, Open 4 5, Message 1 (Some ''AAA='')]
        (fst (endCall pending_call)))) = None
   \<and> snd (deliver_all [Granted 2 3, Open 4 5, Message 1 (Some ''AAA='')]
        (fst (endCall pending_call))) = []
   \<and> streamRef (fst (deliver_all [Granted 2 3, Open 4 5, Message 1 (Some ''AAA='')]
        (fst (endCall pending_call)))) = Some 2
   \<and> sessionPromiseRef (fst (deliver_all [Granted 2 3, Open 4 5, Message 1 (Some ''AAA='')]
        (fst (endCall pending_call)))) = Some 3"
proof -
  let ?evs = "[Granted 2 3, Open 4 5, Message 1 (Some ''AAA='')]"
  from endCall_then_late_events [of pending_call ?evs]
  have "activeCall (fst (deliver_all ?evs (fst (endCall pending_call)))) = None"
    by blast
  moreover have "connectionStatus pending_call = Connecting"
    by (simp add: pending_call_eq)
  moreover have "deliver_all ?evs (fst (endCall pending_call)) =
    (initial\<lparr> streamRef := Some 2, sessionPromiseRef := Some 3, connectionStatus := Connected \<rparr>, [])"
    by (simp add: endCall_state pending_call_eq initial_def startCall_granted_def
        onopen_without_context onmessage_without_context)
  ultimately show ?thesis by simp
qed




text \<open>
  C6, as stated, fails: in \<open>late_open\<close> no call is active and every handle is released,
  and \<open>endCall\<close> changes the component state, the status going from \<open>connected\<close> to
  \<open>idle\<close>.
\<close>

theorem endCall_no_call_counterexample:
  "activeCall late_open = None
   \<and> sessionPromiseRef late_open = None
   \<and> streamRef late_open = None
   \<and> processorRef late_open = None
   \<and> inputSourceRef late_open = None
   \<and> audioContextRef late_open = None
   \<and> connectionStatus late_open = Connected
   \<and> connectionStatus (fst (endCall late_open)) = Idle"
  by (simp add: late_open_eq endCall_state)

text \<open>
  C6, amended. A second \<open>endCall\<close> right after a first one leaves the component state
  as the first one left it and performs no action. \<open>endCall\<close> with no call active and
  every handle released performs no action and changes nothing but the status, which it
  sets to \<open>idle\<close>; it is a no-op when the status is \<open>idle\<close> already. Each teardown step is
  skipped when its handle is already released. \<open>endCall\<close> has no raising branch.
\<close>

theorem endCall_idempotent:
  "endCall (fst (endCall st)) = (fst (endCall st), [])
   \<and> (activeCall st = None \<and> sessionPromiseRef st = None
        \<and> streamRef st = None \<and> processorRef st = None \<and> inputSourceRef st = None
        \<and> audioContextRef st = None \<longrightarrow>
        endCall st = (st\<lparr> connectionStatus := Idle \<rparr>, [])
        \<and> (connectionStatus st = Idle \<longrightarrow> endCall st = (st, [])))
   \<and> (sessionPromiseRef st = None \<longrightarrow> ThenClose p \<notin> set (snd (endCall st)))
   \<and> (streamRef st = None \<longrightarrow> StopTracks s \<notin> set (snd (endCall st)))
   \<and> (processorRef st = None \<longrightarrow> DisconnectProcessor n \<notin> set (snd (endCall st)))
   \<and> (inputSourceRef st = None \<longrightarrow> DisconnectSource m \<notin> set (snd (endCall st)))
   \<and> (audioContextRef st = None \<longrightarrow> CloseContext c \<notin> set (snd (endCall st)))"
proof -
  have "ThenClose p \<notin> set (snd (endCall st))" if "sessionPromiseRef st = None"
    using that by (simp add: endCall_actions split: option.splits)
  moreover have "StopTracks s \<notin> set (snd (endCall st))" if "streamRef st = None"
    using that by (simp add: endCall_actions split: option.splits)
  moreover have "DisconnectProcessor n \<notin> set (snd (endCall st))" if "processorRef st = None"
    using that by (simp add: endCall_actions split: option.splits)
  moreover have "DisconnectSource m \<notin> set (snd (endCall st))" if "inputSourceRef st = None"
    using that by (simp add: endCall_actions split: option.splits)
  moreover have "CloseContext c \<notin> set (snd (endCall st))" if "audioContextRef st = None"
    using that by (simp add: endCall_actions split: option.splits)
  moreover have "endCall st = (st, [])"
    if "endCall st = (st\<lparr> connectionStatus := Idle \<rparr>, [])" "connectionStatus st = Idle"
  proof -
    from that(2) have "st\<lparr> connectionStatus := Idle \<rparr> = st" by (cases st) simp
    with that(1) show ?thesis by simp
  qed
  ultimately show ?thesis
    using endCall_twice [of st] endCall_released [of st] by blast
qed

theorem endCall_idempotent_witness:
  "endCall initial = (initial, [])
   \<and> endCall late_open = (late_open\<lparr> connectionStatus := Idle \<rparr>, [])
   \<and> endCall (fst (endCall live_call)) = (fst (endCall live_call), [])
   \<and> DisconnectProcessor 5 \<notin> set (snd (endCall connecting_call))"
proof -
  have "activeCall initial = None \<and> sessionPromiseRef initial = None \<and> streamRef initial = None
        \<and> processorRef initial = None \<and> inputSourceRef initial = None
        \<and> audioContextRef initial = None" "connectionStatus initial = Idle"
    by (simp_all add: initial_def)
  with endCall_idempotent [of initial] have "endCall initial = (initial, [])" by blast
  moreover have "activeCall late_open = None \<and> sessionPromiseRef late_open = None
        \<and> streamRef late_open = None \<and> processorRef late_open = None
        \<and> inputSourceRef late_open = None \<and> audioContextRef late_open = None"
    by (simp add: late_open_eq)
  with endCall_idempotent [of late_open]
  have "endCall late_open = (late_open\<lparr> connectionStatus := Idle \<rparr>, [])" by blast
  moreover from endCall_idempotent [of live_call]
  have "endCall (fst (endCall live_call)) = (fst (endCall live_call), [])" by blast
  moreover have "processorRef connecting_call = None" by (simp add: connecting_call_eq)
  with endCall_idempotent [of connecting_call _ _ 5]
  have "DisconnectProcessor 5 \<notin> set (snd (endCall connecting_call))" by blast
  ultimately show ?thesis by blast
qed

section \<open>Properties of the storage service\<close>

lemma lower_examples:
  "ascii_toLowerCase ''Apple'' = ''apple''" "ascii_toLowerCase ''APPLE'' = ''apple''"
  "ascii_toLowerCase ''Pear'' = ''pear''"
  by (simp_all add: ascii_toLowerCase_def)

text \<open>
  C10. \<open>saveWord\<close> works on the list \<open>getSavedWords\<close> returns, which is the stored word
  list when one is stored. When no word of that list has the same \<open>toLowerCase\<close> image
  of its string as the candidate, \<open>saveWord\<close> returns true and stores the list with the
  candidate, given the new id and the current time, in front; otherwise it returns false
  and the storage is unchanged.
\<close>

theorem saveWord_adds_unless_duplicate:
  "(ls MY_LIST = Some (WordList ws) \<longrightarrow> getSavedWords ls = ws)
   \<and> (if \<forall>v \<in> set (getSavedWords ls). toLowerCase (word v) \<noteq> toLowerCase (word w)
       then saveWord toLowerCase uuid now w ls =
              (True, ls(MY_LIST \<mapsto>
                 WordList (w\<lparr> id_w := Some uuid, dateAdded := Some now \<rparr> # getSavedWords ls)))
            \<and> getSavedWords (snd (saveWord toLowerCase uuid now w ls)) =
                w\<lparr> id_w := Some uuid, dateAdded := Some now \<rparr> # getSavedWords ls
       else saveWord toLowerCase uuid now w ls = (False, ls))"
proof -
  have "getSavedWords ls = ws" if "ls MY_LIST = Some (WordList ws)"
    using that by (simp add: getSavedWords_def)
  moreover have "saveWord toLowerCase uuid now w ls =
              (True, ls(MY_LIST \<mapsto>
                 WordList (w\<lparr> id_w := Some uuid, dateAdded := Some now \<rparr> # getSavedWords ls)))"
    if "\<forall>v \<in> set (getSavedWords ls). toLowerCase (word v) \<noteq> toLowerCase (word w)"
    using that by (simp add: saveWord_def Let_def list_ex_iff)
  moreover have "saveWord toLowerCase uuid now w ls = (False, ls)"
    if "\<not> (\<forall>v \<in> set (getSavedWords ls). toLowerCase (word v) \<noteq> toLowerCase (word w))"
    using that by (simp add: saveWord_def Let_def list_ex_iff)
  ultimately show ?thesis
    by (simp add: getSavedWords_def)
qed

theorem saveWord_adds_unless_duplicate_witness:
  "saveWord ascii_toLowerCase ''u2'' 7 (entry ''APPLE'') [MY_LIST \<mapsto> WordList [entry ''Apple'']]
     = (False, [MY_LIST \<mapsto> WordList [entry ''Apple'']])
   \<and> saveWord ascii_toLowerCase ''u2'' 7 (entry ''Pear'') [MY_LIST \<mapsto> WordList [entry ''Apple'']]
     = (True, [MY_LIST \<mapsto> WordList [(entry ''Pear'')\<lparr> id_w := Some ''u2'', dateAdded := Some 7 \<rparr>,
                                      entry ''Apple'']])"
proof -
  let ?ls = "[MY_LIST \<mapsto> WordList [entry ''Apple'']]"
  have g: "getSavedWords ?ls = [entry ''Apple'']"
    by (simp add: getSavedWords_def)
  have w: "word (entry x) = x" for x by (simp add: entry_def)
  from saveWord_adds_unless_duplicate [of ?ls "[entry ''Apple'']" ascii_toLowerCase "entry ''APPLE''" "''u2''" 7]
  have "saveWord ascii_toLowerCase ''u2'' 7 (entry ''APPLE'') ?ls = (False, ?ls)"
    by (simp add: g w lower_examples)
  moreover
  from saveWord_adds_unless_duplicate [of ?ls "[entry ''Apple'']" ascii_toLowerCase "entry ''Pear''" "''u2''" 7]
  have "saveWord ascii_toLowerCase ''u2'' 7 (entry ''Pear'') ?ls
     = (True, [MY_LIST \<mapsto> WordList [(entry ''Pear'')\<lparr> id_w := Some ''u2'', dateAdded := Some 7 \<rparr>,
                                      entry ''Apple'']])"
    by (simp add: g w lower_examples)
  ultimately show ?thesis by (rule conjI)
qed

end
